theory Spec2Isabelle
  imports Main "HOL-Library.Sublist" "HOL-Library.AList" "HOL-Library.List_Lexorder"
begin

section \<open>JavaScript string primitives used by the merger\<close>

text \<open>
  The program works on the XML parts as JavaScript strings, with \<^verbatim>\<open>String.prototype.match\<close>
  and \<^verbatim>\<open>String.prototype.replace\<close>. A string is a \<^typ>\<open>string\<close>; the functions below are
  the library calls the source makes, with the behaviour ECMAScript gives them.

  \<open>firstOccurrence p s\<close> is the leftmost occurrence of the literal \<open>p\<close> in \<open>s\<close>
  (\<^verbatim>\<open>s.indexOf(p)\<close>), returned as the text before it and the text after it.
\<close>

fun firstOccurrence :: "string \<Rightarrow> string \<Rightarrow> (string \<times> string) option" where
  "firstOccurrence p [] = (if p = [] then Some ([], []) else None)"
| "firstOccurrence p (c # cs) =
     (if prefix p (c # cs) then Some ([], drop (length p) (c # cs))
      else map_option (\<lambda>(b, a). (c # b, a)) (firstOccurrence p cs))"

definition isDigit :: "char \<Rightarrow> bool" where
  "isDigit c = (c \<in> set ''0123456789'')"

definition digitValue :: "char \<Rightarrow> nat" where
  "digitValue c = length (takeWhile (\<lambda>d. d \<noteq> c) ''0123456789'')"

text \<open>
  \<open>getSubstitution matched before after captures template\<close> expands a replacement string as
  \<^verbatim>\<open>replace\<close> does (ECMAScript GetSubstitution): \<^verbatim>\<open>$$\<close> is a dollar sign, \<^verbatim>\<open>$&\<close> the
  matched text, \<^verbatim>\<open>$`\<close> the text before the match, \<^verbatim>\<open>$'\<close> the text after it, \<^verbatim>\<open>$n\<close> and
  \<^verbatim>\<open>$nn\<close> the capture of that number when the pattern has one; every other character,
  and a dollar sign before anything else, stands for itself. A literal search string has
  no captures.
\<close>

fun getSubstitution :: "string \<Rightarrow> string \<Rightarrow> string \<Rightarrow> string list \<Rightarrow> string \<Rightarrow> string" where
  "getSubstitution m b a caps [] = []"
| "getSubstitution m b a caps [c] = [c]"
| "getSubstitution m b a caps (c # d # r) =
     (if c \<noteq> CHR ''$'' then c # getSubstitution m b a caps (d # r)
      else if d = CHR ''$'' then CHR ''$'' # getSubstitution m b a caps r
      else if d = CHR 0x60 then b @ getSubstitution m b a caps r
      else if d = CHR ''&'' then m @ getSubstitution m b a caps r
      else if d = CHR 0x27 then a @ getSubstitution m b a caps r
      else if isDigit d then
        (case r of
           e # r' \<Rightarrow>
             if isDigit e \<and> 1 \<le> 10 * digitValue d + digitValue e
                \<and> 10 * digitValue d + digitValue e \<le> length caps
             then caps ! (10 * digitValue d + digitValue e - 1) @ getSubstitution m b a caps r'
             else if 1 \<le> digitValue d \<and> digitValue d \<le> length caps
             then caps ! (digitValue d - 1) @ getSubstitution m b a caps (e # r')
             else c # getSubstitution m b a caps (d # e # r')
         | [] \<Rightarrow>
             if 1 \<le> digitValue d \<and> digitValue d \<le> length caps
             then caps ! (digitValue d - 1)
             else [c, d])
      else c # getSubstitution m b a caps (d # r))"

text \<open>\<^verbatim>\<open>s.replace(p, r)\<close> with a string \<open>p\<close>: only the first occurrence is replaced.\<close>

definition replaceStr :: "string \<Rightarrow> string \<Rightarrow> string \<Rightarrow> string" where
  "replaceStr s p r =
     (case firstOccurrence p s of
        None \<Rightarrow> s
      | Some (b, a) \<Rightarrow> b @ getSubstitution p b a [] r @ a)"

text \<open>
  The regular expressions of the source are literals separated by \<^verbatim>\<open>[\s\S]*?\<close>, the shortest
  run of any characters (\<^verbatim>\<open>/<w:tr[\s\S]*?<\/w:tr>/\<close> and the like), or by \<^verbatim>\<open>[^>]*\<close> before
  a \<^verbatim>\<open>>\<close>. The leftmost match of such an expression starts at the first occurrence of
  its first literal and takes each further literal at its first occurrence after the
  previous one: if the remaining literals can be found after a later occurrence they can be
  found after the first one, so backtracking never moves past it; and when they cannot be
  found after the first occurrence of the first literal, no later start matches either.
  \<open>matchSeq ls s\<close> returns the text before the match, the match and the text after it.
\<close>

fun matchRest :: "string list \<Rightarrow> string \<Rightarrow> (string \<times> string) option" where
  "matchRest [] s = Some ([], s)"
| "matchRest (l # ls) s =
     (case firstOccurrence l s of
        None \<Rightarrow> None
      | Some (gap, a) \<Rightarrow>
          (case matchRest ls a of
             None \<Rightarrow> None
           | Some (m, rest) \<Rightarrow> Some (gap @ l @ m, rest)))"

fun matchSeq :: "string list \<Rightarrow> string \<Rightarrow> (string \<times> string \<times> string) option" where
  "matchSeq [] s = Some ([], [], s)"
| "matchSeq (l # ls) s =
     (case firstOccurrence l s of
        None \<Rightarrow> None
      | Some (b, a) \<Rightarrow>
          (case matchRest ls a of
             None \<Rightarrow> None
           | Some (m, rest) \<Rightarrow> Some (b, l @ m, rest)))"

text \<open>
  The text such an expression can match: its first literal, then each further literal
  with some text, the gap, before it.
\<close>

fun gapped :: "(string \<times> string) list \<Rightarrow> string" where
  "gapped [] = []"
| "gapped ((g, l) # gls) = g @ l @ gapped gls"

lemma firstOccurrence_decomp:
  "firstOccurrence p s = Some (b, a) \<Longrightarrow> s = b @ p @ a"
proof (induction s arbitrary: b a)
  case Nil
  then show ?case by (simp split: if_splits)
next
  case (Cons c cs)
  show ?case
  proof (cases "prefix p (c # cs)")
    case True
    with Cons.prems have ba: "b = []" "a = drop (length p) (c # cs)" by simp_all
    from True obtain r where "c # cs = p @ r" by (auto simp: prefix_def)
    with ba show ?thesis by simp
  next
    case False
    with Cons.prems obtain b' where "firstOccurrence p cs = Some (b', a)" "b = c # b'"
      by auto
    with Cons.IH show ?thesis by simp
  qed
qed

lemma matchRest_decomp:
  "matchRest ls s = Some (m, r) \<Longrightarrow> s = m @ r"
proof (induction ls arbitrary: s m r)
  case Nil
  then show ?case by simp
next
  case (Cons l ls)
  from Cons.prems obtain gap a m' where
    f: "firstOccurrence l s = Some (gap, a)" and
    r: "matchRest ls a = Some (m', r)" and
    m: "m = gap @ l @ m'"
    by (auto split: option.splits)
  from firstOccurrence_decomp [OF f] Cons.IH [OF r] m show ?case by simp
qed

lemma matchSeq_decomp:
  "matchSeq ls s = Some (b, m, r) \<Longrightarrow> s = b @ m @ r"
proof (cases ls)
  case Nil
  assume "matchSeq ls s = Some (b, m, r)"
  with Nil show ?thesis by simp
next
  case (Cons l ls')
  assume "matchSeq ls s = Some (b, m, r)"
  with Cons obtain a m' where
    f: "firstOccurrence l s = Some (b, a)" and
    r: "matchRest ls' a = Some (m', r)" and
    m: "m = l @ m'"
    by (auto split: option.splits)
  from firstOccurrence_decomp [OF f] matchRest_decomp [OF r] m show ?thesis by simp
qed

text \<open>
  With the \<^verbatim>\<open>g\<close> flag, \<^verbatim>\<open>s.match(re)\<close> lists every match, each search starting where the
  previous match ended (one character further after an empty match). The source treats
  \<^verbatim>\<open>null\<close> (no match) like the empty list.
\<close>

function matchAllSeq :: "string list \<Rightarrow> string \<Rightarrow> string list" where
  "matchAllSeq ls s =
     (case matchSeq ls s of
        None \<Rightarrow> []
      | Some (b, m, r) \<Rightarrow>
          m # (if m = [] then (case r of [] \<Rightarrow> [] | c # cs \<Rightarrow> matchAllSeq ls cs)
               else matchAllSeq ls r))"
  by pat_completeness auto
termination
proof (relation "measure (\<lambda>(ls, s). length s)")
  show "wf (measure (\<lambda>(ls, s). length s))" by simp
next
  fix ls s x2 b y m r c cs
  assume "matchSeq ls s = Some x2" "(b, y) = x2" "(m, r) = y" "m = []" "r = c # cs"
  then have "s = b @ m @ r" using matchSeq_decomp by metis
  with \<open>r = c # cs\<close> show "((ls, cs), (ls, s)) \<in> measure (\<lambda>(ls, s). length s)"
    by simp
next
  fix ls s x2 b y m r
  assume "matchSeq ls s = Some x2" "(b, y) = x2" "(m, r) = y" "m \<noteq> []"
  then have "s = b @ m @ r" "m \<noteq> []" using matchSeq_decomp by metis+
  then show "((ls, r), (ls, s)) \<in> measure (\<lambda>(ls, s). length s)"
    by simp
qed

text \<open>
  \<^verbatim>\<open>(s.match(/P/g) || []).length\<close> and \<^verbatim>\<open>s.replace(/P/g, '')\<close> for a literal \<open>P\<close>: the
  occurrences are taken from left to right and do not overlap.
\<close>

function countOccurrences :: "string \<Rightarrow> string \<Rightarrow> nat" where
  "countOccurrences p [] = (if p = [] then 1 else 0)"
| "countOccurrences p (c # cs) =
     (if prefix p (c # cs) then Suc (countOccurrences p (drop (length p - 1) cs))
      else countOccurrences p cs)"
  by pat_completeness auto
termination
  by (relation "measure (\<lambda>(p, s). length s)") auto

function removeAll_str :: "string \<Rightarrow> string \<Rightarrow> string" where
  "removeAll_str p [] = []"
| "removeAll_str p (c # cs) =
     (if prefix p (c # cs)
      then (if p = [] then c # removeAll_str p cs else removeAll_str p (drop (length p - 1) cs))
      else c # removeAll_str p cs)"
  by pat_completeness auto
termination
  by (relation "measure (\<lambda>(p, s). length s)") auto

text \<open>A serial number is a positive integer; a template literal prints it in decimal.\<close>

fun decimal :: "nat \<Rightarrow> string" where
  "decimal n =
     (if n < 10 then [''0123456789'' ! n]
      else decimal (n div 10) @ [''0123456789'' ! (n mod 10)])"

declare decimal.simps [simp del]

section \<open>The table numberer (tableHandler.js)\<close>

text \<open>
  \<open>processRowFirstCell\<close>: the first \<^verbatim>\<open><w:tc>...</w:tc>\<close> of the row, its first
  \<^verbatim>\<open><w:p...</w:p>\<close>, and the rewritten paragraph put back with \<^verbatim>\<open>replace\<close>. In the branch
  that keeps \<^verbatim>\<open><w:pPr>\<close>, the source passes the search pattern as a string,
  \<^verbatim>\<open>pPrMatch[0] + '[\s\S]*?<\/w:p>'\<close>; in a string literal the escapes \<^verbatim>\<open>\s\<close>, \<^verbatim>\<open>\S\<close> and
  \<^verbatim>\<open>\/\<close> are the characters \<^verbatim>\<open>s\<close>, \<^verbatim>\<open>S\<close> and \<^verbatim>\<open>/\<close>, and a string pattern is searched
  literally.
\<close>

definition numberedRun :: "nat \<Rightarrow> string" where
  "numberedRun serialNumber =
     ''<w:r><w:t>'' @ decimal serialNumber @ ''</w:t></w:r></w:p><REF_NUMBER_ADDED>''"

definition processRowFirstCell :: "string \<Rightarrow> nat \<Rightarrow> string" where
  "processRowFirstCell rowXml serialNumber =
     (case matchSeq [''<w:tc>'', ''</w:tc>''] rowXml of
        None \<Rightarrow> rowXml
      | Some (_, cell, _) \<Rightarrow>
          (case matchSeq [''<w:p'', ''</w:p>''] cell of
             None \<Rightarrow>
               (let newCell =
                      (case firstOccurrence ''<w:tc>'' cell of
                         None \<Rightarrow> cell
                       | Some (b, a) \<Rightarrow>
                           b @ getSubstitution ''<w:tc>'' b a [[]]
                                 (''<w:tc>$1<w:p>'' @ numberedRun serialNumber) @ a)
                in replaceStr rowXml cell newCell)
           | Some (_, paragraph, _) \<Rightarrow>
               (let newParagraph =
                      (case matchSeq [''<w:pPr>'', ''</w:pPr>''] paragraph of
                         Some (_, pPr, _) \<Rightarrow>
                           replaceStr paragraph (pPr @ ''[sS]*?</w:p>'')
                             (pPr @ numberedRun serialNumber)
                       | None \<Rightarrow> ''<w:p>'' @ numberedRun serialNumber);
                    newCell = replaceStr cell paragraph newParagraph
                in replaceStr rowXml cell newCell)))"

text \<open>
  The row loop of \<open>processTable\<close>. Its state is the table text rewritten so far and the
  local serial number; \<open>numberRow\<close> is the body of the loop for a row that is not skipped.
\<close>

definition numberRow :: "string \<times> nat \<Rightarrow> string \<Rightarrow> string \<times> nat" where
  "numberRow st row =
     (case st of
        (processedTableXml, serialNumber) \<Rightarrow>
          (let processedRow = processRowFirstCell row serialNumber in
           if processedRow \<noteq> row
           then (replaceStr processedTableXml row processedRow, serialNumber + 1)
           else (processedTableXml, serialNumber)))"

fun processRows :: "string list \<Rightarrow> nat \<Rightarrow> string \<times> nat \<Rightarrow> string \<times> nat" where
  "processRows [] rowIndex st = st"
| "processRows (row # rows) rowIndex st =
     (let rowNumber = rowIndex + 1 in
      if rowNumber = 1 \<or> (rowNumber mod 4 = 1 \<and> rowNumber > 1)
      then processRows rows (rowIndex + 1) st
      else processRows rows (rowIndex + 1) (numberRow st row))"

definition processTable :: "string \<Rightarrow> nat \<Rightarrow> nat \<Rightarrow> string" where
  "processTable tableXml tableIndex startSerialNumber =
     (let rows = matchAllSeq [''<w:tr'', ''</w:tr>''] tableXml in
      if rows = [] then tableXml
      else fst (processRows rows 0 (tableXml, startSerialNumber)))"

text \<open>
  The table loop of \<open>processTableReferences\<close>: the global serial number advances by the
  number of \<^verbatim>\<open><REF_NUMBER_ADDED>\<close> markers in the processed table, and the processed table,
  markers removed, replaces the original table text in the document.
\<close>

fun processTables :: "string list \<Rightarrow> nat \<Rightarrow> nat \<Rightarrow> string \<Rightarrow> string \<times> nat" where
  "processTables [] i serialNumber processedXml = (processedXml, serialNumber)"
| "processTables (originalTable # tables) i serialNumber processedXml =
     (let processedTable = processTable originalTable (i + 1) serialNumber;
          processedRows = countOccurrences ''<REF_NUMBER_ADDED>'' processedTable
      in processTables tables (i + 1) (serialNumber + processedRows)
           (replaceStr processedXml originalTable
              (removeAll_str ''<REF_NUMBER_ADDED>'' processedTable)))"

definition processTableReferences :: "string \<Rightarrow> nat \<Rightarrow> string" where
  "processTableReferences docXml startNumber =
     (let tables = matchAllSeq [''<w:tbl>'', ''</w:tbl>''] docXml in
      if tables = [] then docXml
      else fst (processTables tables 0 startNumber docXml))"

section \<open>The package model\<close>

text \<open>
  A package is loaded with JSZip as a list of parts, each a path with its content.
  \<^verbatim>\<open>zip.file(path)\<close> is the part or \<^verbatim>\<open>null\<close>; \<^verbatim>\<open>zip.file(path, content)\<close> overwrites the part
  or adds it at the end. The tests \<^verbatim>\<open>!text\<close> of the source hold for \<^verbatim>\<open>null\<close> and for the
  empty string.
\<close>

type_synonym zip = "(string \<times> string) list"

definition getZipEntryText :: "zip \<Rightarrow> string \<Rightarrow> string option" where
  "getZipEntryText z path = map_of z path"

definition zipPut :: "zip \<Rightarrow> string \<Rightarrow> string \<Rightarrow> zip" where
  "zipPut z path content = AList.update path content z"

definition falsy :: "string option \<Rightarrow> bool" where
  "falsy t = (t = None \<or> t = Some [])"

section \<open>The template applier (templateApplier.js)\<close>


text \<open>
  The header and footer entries of the template's relationship part are the matches of
  \<^verbatim>\<open>/<Relationship [^>]*(?:Target="(?:header|footer)\d+\.xml")[^>]*>/g\<close>: a match starts with
  \<^verbatim>\<open><Relationship \<close>, runs to the first \<^verbatim>\<open>>\<close> and has, before that \<^verbatim>\<open>>\<close>, the text
  \<^verbatim>\<open>Target="header\<close> or \<^verbatim>\<open>Target="footer\<close>, one or more digits and \<^verbatim>\<open>.xml"\<close>. When there is
  no match at a position the search moves one character on; after a match it goes on
  behind the match.
\<close>

definition targetAt :: "string \<Rightarrow> bool" where
  "targetAt s =
     ((prefix ''Target=\"header'' s \<or> prefix ''Target=\"footer'' s)
      \<and> takeWhile isDigit (drop 14 s) \<noteq> []
      \<and> prefix ''.xml\"'' (dropWhile isDigit (drop 14 s)))"

fun hasTarget :: "string \<Rightarrow> bool" where
  "hasTarget [] = False"
| "hasTarget (c # cs) = (targetAt (c # cs) \<or> hasTarget cs)"

function headerFooterRels :: "string \<Rightarrow> string list" where
  "headerFooterRels [] = []"
| "headerFooterRels (c # cs) =
     (if prefix ''<Relationship '' (c # cs)
      then
        (let attrs = takeWhile (\<lambda>x. x \<noteq> CHR ''>'') (drop 14 (c # cs));
             rest = dropWhile (\<lambda>x. x \<noteq> CHR ''>'') (drop 14 (c # cs))
         in if rest \<noteq> [] \<and> hasTarget attrs
            then (''<Relationship '' @ attrs @ ''>'') # headerFooterRels (tl rest)
            else headerFooterRels cs)
      else headerFooterRels cs)"
  by pat_completeness auto
termination
proof (relation "measure length")
  show "wf (measure length)" by simp
next
  fix c :: char and cs attrs rest
  assume rest: "rest = dropWhile (\<lambda>x. x \<noteq> CHR ''>'') (drop 14 (c # cs))"
    and ok: "rest \<noteq> [] \<and> hasTarget attrs"
  have "length rest \<le> length (drop 14 (c # cs))"
    unfolding rest by (rule length_dropWhile_le)
  also have "\<dots> \<le> length (c # cs)" by simp
  finally have "length rest \<le> length (c # cs)" .
  moreover from ok have "length (tl rest) < length rest" by (cases rest) simp_all
  ultimately show "(tl rest, c # cs) \<in> measure length" by simp
qed simp_all

text \<open>An entry of a relationship part, written with the attribute text \<open>attrs\<close>.\<close>

definition relTag :: "string \<Rightarrow> string" where
  "relTag attrs = ''<Relationship '' @ attrs @ ''>''"

definition preserveRelationships :: "zip \<Rightarrow> zip \<Rightarrow> zip" where
  "preserveRelationships templateZip mergedZip =
     (let templateRels = getZipEntryText templateZip ''word/_rels/document.xml.rels'';
          mergedRels = getZipEntryText mergedZip ''word/_rels/document.xml.rels''
      in if falsy templateRels \<or> falsy mergedRels then mergedZip
         else
           (let headerFooterRels = headerFooterRels (the templateRels) in
            if length headerFooterRels > 0
            then zipPut mergedZip ''word/_rels/document.xml.rels''
                   (replaceStr (the mergedRels) ''</Relationships>''
                      (concat headerFooterRels @ ''</Relationships>''))
            else mergedZip))"





text \<open>
  Section properties are the matches of \<^verbatim>\<open>/<w:sectPr[^>]*>[\s\S]*?<\/w:sectPr>/g\<close>: from
  \<^verbatim>\<open><w:sectPr\<close> over the first \<^verbatim>\<open>>\<close> to the first \<^verbatim>\<open></w:sectPr>\<close>.
\<close>

definition sectPrRegex :: "string list" where
  "sectPrRegex = [''<w:sectPr'', ''>'', ''</w:sectPr>'']"

definition updateDocumentReferences :: "zip \<Rightarrow> zip \<Rightarrow> zip" where
  "updateDocumentReferences templateZip mergedZip =
     (let templateDoc = getZipEntryText templateZip ''word/document.xml'';
          mergedDoc = getZipEntryText mergedZip ''word/document.xml''
      in if falsy templateDoc \<or> falsy mergedDoc then mergedZip
         else
           (let templateSectPrs = matchAllSeq sectPrRegex (the templateDoc) in
            if templateSectPrs = [] then mergedZip
            else
              (let mainSectPr = last templateSectPrs;
                   mergedSectPrs = matchAllSeq sectPrRegex (the mergedDoc)
               in zipPut mergedZip ''word/document.xml''
                    (if mergedSectPrs = []
                     then replaceStr (the mergedDoc) ''</w:body>'' (mainSectPr @ ''</w:body>'')
                     else foldl (\<lambda>doc sectPr. replaceStr doc sectPr mainSectPr)
                            (the mergedDoc) mergedSectPrs))))"

text \<open>
  The blank first page is looked for with
  \<^verbatim>\<open>/<w:body>[\s\S]*?<w:p>[\s\S]*?<w:r>[\s\S]*?<w:br w:type="page"\/>[\s\S]*?<\/w:r>[\s\S]*?<\/w:p>/\<close>
  and the whole match is replaced by \<^verbatim>\<open><w:body>\<close>.
\<close>

definition blankFirstPageRegex :: "string list" where
  "blankFirstPageRegex =
     [''<w:body>'', ''<w:p>'', ''<w:r>'', ''<w:br w:type=\"page\"/>'', ''</w:r>'', ''</w:p>'']"

definition removeBlankFirstPage :: "zip \<Rightarrow> zip" where
  "removeBlankFirstPage mergedZip =
     (let docXml = getZipEntryText mergedZip ''word/document.xml'' in
      if falsy docXml then mergedZip
      else
        (case matchSeq blankFirstPageRegex (the docXml) of
           Some (b, m, r) \<Rightarrow>
             zipPut mergedZip ''word/document.xml'' (replaceStr (the docXml) m ''<w:body>'')
         | None \<Rightarrow> mergedZip))"


section \<open>Files and the merge pipeline (wordMerger.js, tableHandler.js, index.js)\<close>













section \<open>Facts about the primitives\<close>

text \<open>A replacement string without a dollar sign is used as it is.\<close>

lemma getSubstitution_plain:
  "CHR ''$'' \<notin> set r \<Longrightarrow> getSubstitution m b a caps r = r"
  by (induction m b a caps r rule: getSubstitution.induct) auto

lemma replaceStr_plain:
  "firstOccurrence p s = Some (b, a) \<Longrightarrow> CHR ''$'' \<notin> set r \<Longrightarrow> replaceStr s p r = b @ r @ a"
  by (simp add: replaceStr_def getSubstitution_plain)


text \<open>Replacing a text by itself changes nothing when the text has no dollar sign.\<close>

lemma firstOccurrence_exists:
  "\<exists>x y. firstOccurrence p (b @ p @ a) = Some (x, y)"
proof (induction b)
  case Nil
  show ?case
  proof (cases "p @ a")
    case Nil
    then show ?thesis by simp
  next
    case (Cons c cs)
    have "prefix p (p @ a)" by simp
    with Cons show ?thesis by simp
  qed
next
  case (Cons c b)
  then obtain x y where "firstOccurrence p (b @ p @ a) = Some (x, y)" by blast
  then show ?case by simp
qed

lemma replaceStr_self:
  assumes "CHR ''$'' \<notin> set p" "s = b @ p @ a"
  shows "replaceStr s p p = s"
proof -
  from firstOccurrence_exists [of p b a] assms(2)
  obtain x y where f: "firstOccurrence p s = Some (x, y)" by blast
  from replaceStr_plain [OF f assms(1)] firstOccurrence_decomp [OF f]
  show ?thesis by simp
qed

lemma firstOccurrence_at_start:
  "firstOccurrence p (p @ a) = Some ([], a)"
proof (cases "p @ a")
  case Nil
  then show ?thesis by simp
next
  case (Cons c cs)
  have "prefix p (p @ a)" by simp
  moreover have "drop (length p) (p @ a) = a" by simp
  ultimately show ?thesis unfolding Cons [symmetric]
    by (metis Cons firstOccurrence.simps(2))
qed

text \<open>
  The match of an expression is its own first occurrence in the text: it cannot occur
  before the first occurrence of its first literal.
\<close>

lemma firstOccurrence_extend:
  assumes "firstOccurrence l s = Some (b, a)" "s = b @ m @ r" "prefix l m"
  shows "firstOccurrence m s = Some (b, r)"
  using assms
proof (induction s arbitrary: b)
  case Nil
  then show ?case by (simp split: if_splits)
next
  case (Cons c cs)
  show ?case
  proof (cases "prefix l (c # cs)")
    case True
    with Cons.prems(1) have b: "b = []" by simp
    with Cons.prems(2) have s: "c # cs = m @ r" by simp
    then have "prefix m (c # cs)" by simp
    moreover from s have "drop (length m) (c # cs) = r" by simp
    ultimately show ?thesis using b by simp
  next
    case False
    with Cons.prems(1) obtain b' where f: "firstOccurrence l cs = Some (b', a)" and b: "b = c # b'"
      by auto
    from b Cons.prems(2) have cs: "cs = b' @ m @ r" by simp
    from Cons.IH [OF f cs Cons.prems(3)] have ih: "firstOccurrence m cs = Some (b', r)" .
    have "\<not> prefix m (c # cs)"
    proof
      assume "prefix m (c # cs)"
      with Cons.prems(3) have "prefix l (c # cs)" by (rule prefix_order.trans)
      with False show False by simp
    qed
    with ih b show ?thesis by simp
  qed
qed

lemma matchSeq_first:
  assumes "matchSeq (l # ls) s = Some (b, m, r)"
  shows "firstOccurrence m s = Some (b, r)"
proof -
  from assms obtain a m' where
    f: "firstOccurrence l s = Some (b, a)" and m: "m = l @ m'"
    by (auto split: option.splits)
  from matchSeq_decomp [OF assms] have s: "s = b @ m @ r" .
  from m have "prefix l m" by simp
  from firstOccurrence_extend [OF f s this] show ?thesis .
qed

subsection \<open>The expressions and backtracking\<close>

text \<open>
  What \<open>matchSeq\<close> returns is a match of the expression: the literals in their order with
  gaps between them.
\<close>

lemma matchRest_shape:
  "matchRest ls s = Some (m, r) \<Longrightarrow>
     \<exists>gaps. length gaps = length ls \<and> m = gapped (zip gaps ls)"
proof (induction ls arbitrary: s m)
  case Nil
  then show ?case by simp
next
  case (Cons l ls)
  from Cons.prems obtain g a m' where
    "firstOccurrence l s = Some (g, a)" and r: "matchRest ls a = Some (m', r)" and
    m: "m = g @ l @ m'"
    by (auto split: option.splits)
  from Cons.IH [OF r] obtain gaps where "length gaps = length ls" "m' = gapped (zip gaps ls)"
    by blast
  with m have "length (g # gaps) = length (l # ls) \<and> m = gapped (zip (g # gaps) (l # ls))"
    by simp
  then show ?case by blast
qed

lemma matchSeq_shape:
  assumes "matchSeq (l # ls) s = Some (b, m, r)"
  shows "\<exists>gaps. length gaps = length ls \<and> m = l @ gapped (zip gaps ls) \<and> s = b @ m @ r"
proof -
  from assms obtain a m' where "matchRest ls a = Some (m', r)" "m = l @ m'"
    by (auto split: option.splits)
  with matchRest_shape [of ls a m' r] matchSeq_decomp [OF assms] show ?thesis by auto
qed

text \<open>
  And it is the match that backtracking finds. Whenever the text has a match of the
  expression at all, after some text \<open>b'\<close> and with some gaps \<open>gaps'\<close>, \<open>matchSeq\<close> returns a
  match, and the start of that match followed by the lengths of its gaps is, in the
  lexicographic order, at most the start and gap lengths of the other: it starts leftmost,
  and from there each \<^verbatim>\<open>[\s\S]*?\<close> in turn is as short as a match allows.
\<close>

lemma firstOccurrence_least:
  assumes "firstOccurrence p s = Some (b, a)" "s = b' @ p @ a'"
  shows "length b \<le> length b'"
  using assms
proof (induction s arbitrary: b b')
  case Nil
  then show ?case by (simp split: if_splits)
next
  case (Cons c cs)
  show ?case
  proof (cases "prefix p (c # cs)")
    case True
    with Cons.prems(1) show ?thesis by simp
  next
    case False
    with Cons.prems(1) obtain b1 where f: "firstOccurrence p cs = Some (b1, a)" and b: "b = c # b1"
      by auto
    show ?thesis
    proof (cases b')
      case Nil
      with Cons.prems(2) have "prefix p (c # cs)" by simp
      with False show ?thesis by simp
    next
      case (Cons d b2)
      with Cons.prems(2) have "cs = b2 @ p @ a'" by simp
      from Cons.IH [OF f this] b Cons show ?thesis by simp
    qed
  qed
qed

lemma matchRest_lazy:
  assumes "s = gapped (zip gaps' ls) @ r'" "length gaps' = length ls"
  shows "\<exists>gaps r. matchRest ls s = Some (gapped (zip gaps ls), r)
           \<and> length gaps = length ls
           \<and> map length gaps \<le> map length gaps'"
  using assms
proof (induction ls arbitrary: s gaps')
  case Nil
  then show ?case by simp
next
  case (Cons l ls)
  from Cons.prems(2) obtain g' gs' where gaps': "gaps' = g' # gs'" and len: "length gs' = length ls"
    by (cases gaps') auto
  with Cons.prems(1) have s: "s = g' @ l @ gapped (zip gs' ls) @ r'" by simp
  from firstOccurrence_exists [of l g' "gapped (zip gs' ls) @ r'"] s
  obtain g a where f: "firstOccurrence l s = Some (g, a)" by auto
  from firstOccurrence_decomp [OF f] have sd: "s = g @ l @ a" .
  from firstOccurrence_least [OF f s] have le: "length g \<le> length g'" .
  show ?case
  proof (cases "length g = length g'")
    case True
    with s sd have "g = g'" "a = gapped (zip gs' ls) @ r'" by auto
    from Cons.IH [OF this(2) len] obtain gaps r where
      m: "matchRest ls a = Some (gapped (zip gaps ls), r)" and
      l: "length gaps = length ls" and o: "map length gaps \<le> map length gs'" by blast
    from f m have "matchRest (l # ls) s = Some (gapped (zip (g # gaps) (l # ls)), r)" by simp
    moreover from l have "length (g # gaps) = length (l # ls)" by simp
    moreover from o True gaps' have "map length (g # gaps) \<le> map length gaps'" by simp
    ultimately show ?thesis by blast
  next
    case False
    with le have lt: "length g < length g'" by simp
    from s sd have eq: "g @ l @ a = g' @ l @ gapped (zip gs' ls) @ r'" by simp
    have "a = drop (length g + length l) s" using sd by simp
    moreover have "gapped (zip gs' ls) @ r' = drop (length g' + length l) s" using s by simp
    ultimately have "gapped (zip gs' ls) @ r' = drop (length g' - length g) a"
      using lt by (simp add: add.commute)
    then have a: "a = take (length g' - length g) a @ gapped (zip gs' ls) @ r'"
      by (metis append_take_drop_id)
    show ?thesis
    proof (cases ls)
      case Nil
      with f have "matchRest (l # ls) s = Some (gapped (zip [g] (l # ls)), a)" by simp
      moreover from Nil have "length [g] = length (l # ls)" by simp
      moreover from lt gaps' have "map length [g] \<le> map length gaps'" by simp
      ultimately show ?thesis by blast
    next
      case (Cons l2 ls2)
      with len obtain g2' gs2' where gs': "gs' = g2' # gs2'" by (cases gs') auto
      let ?x = "take (length g' - length g) a"
      from a gs' Cons have "a = gapped (zip ((?x @ g2') # gs2') ls) @ r'" by simp
      moreover from len gs' have "length ((?x @ g2') # gs2') = length ls" by simp
      ultimately obtain gaps r where
        m: "matchRest ls a = Some (gapped (zip gaps ls), r)" and
        l: "length gaps = length ls"
        using Cons.IH by blast
      from f m have "matchRest (l # ls) s = Some (gapped (zip (g # gaps) (l # ls)), r)" by simp
      moreover from l have "length (g # gaps) = length (l # ls)" by simp
      moreover from lt gaps' have "map length (g # gaps) \<le> map length gaps'" by simp
      ultimately show ?thesis by blast
    qed
  qed
qed


lemma matchSeq_leftmost_lazy:
  assumes "s = b' @ l @ gapped (zip gaps' ls) @ r'" "length gaps' = length ls"
  shows "\<exists>b gaps r. matchSeq (l # ls) s = Some (b, l @ gapped (zip gaps ls), r)
           \<and> length gaps = length ls
           \<and> length b # map length gaps \<le> length b' # map length gaps'"
proof -
  from firstOccurrence_exists [of l b' "gapped (zip gaps' ls) @ r'"] assms(1)
  obtain b a where f: "firstOccurrence l s = Some (b, a)" by auto
  from firstOccurrence_decomp [OF f] have sd: "s = b @ l @ a" .
  from firstOccurrence_least [OF f assms(1)] have le: "length b \<le> length b'" .
  have "\<exists>gaps r. matchRest ls a = Some (gapped (zip gaps ls), r) \<and> length gaps = length ls
          \<and> length b # map length gaps \<le> length b' # map length gaps'"
  proof (cases "length b = length b'")
    case True
    with assms(1) sd have "a = gapped (zip gaps' ls) @ r'" by auto
    from matchRest_lazy [OF this assms(2)] True show ?thesis by auto
  next
    case False
    with le have lt: "length b < length b'" by simp
    have "a = drop (length b + length l) s" using sd by simp
    moreover have "gapped (zip gaps' ls) @ r' = drop (length b' + length l) s"
      using assms(1) by simp
    ultimately have "gapped (zip gaps' ls) @ r' = drop (length b' - length b) a"
      using lt by (simp add: add.commute)
    then have a: "a = take (length b' - length b) a @ gapped (zip gaps' ls) @ r'"
      by (metis append_take_drop_id)
    show ?thesis
    proof (cases ls)
      case Nil
      with lt show ?thesis by simp
    next
      case (Cons l2 ls2)
      with assms(2) obtain g2' gs2' where gs': "gaps' = g2' # gs2'" by (cases gaps') auto
      let ?x = "take (length b' - length b) a"
      from a gs' Cons have "a = gapped (zip ((?x @ g2') # gs2') ls) @ r'" by simp
      moreover from assms(2) gs' have "length ((?x @ g2') # gs2') = length ls" by simp
      ultimately obtain gaps r where
        "matchRest ls a = Some (gapped (zip gaps ls), r)" "length gaps = length ls"
        using matchRest_lazy by blast
      with lt show ?thesis by auto
    qed
  qed
  then obtain gaps r where
    "matchRest ls a = Some (gapped (zip gaps ls), r)" "length gaps = length ls"
    "length b # map length gaps \<le> length b' # map length gaps'" by blast
  with f show ?thesis by auto
qed


text \<open>
  In \<^verbatim>\<open>/<w:sectPr[^>]*>[\s\S]*?<\/w:sectPr>/\<close> the first gap is \<^verbatim>\<open>[^>]*\<close>, which cannot hold
  a \<^verbatim>\<open>>\<close>: the \<^verbatim>\<open>>\<close> after it is the first one, which is where \<open>matchSeq\<close> takes it.
\<close>

lemma firstOccurrence_char_gap:
  "firstOccurrence [c] s = Some (b, a) \<Longrightarrow> c \<notin> set b"
proof (induction s arbitrary: b)
  case Nil
  then show ?case by simp
next
  case (Cons d ds)
  show ?case
  proof (cases "d = c")
    case True
    with Cons.prems show ?thesis by simp
  next
    case False
    with Cons.prems obtain b' where "firstOccurrence [c] ds = Some (b', a)" "b = d # b'"
      by auto
    with Cons.IH False show ?thesis by auto
  qed
qed

lemma sectPr_match_shape:
  assumes "matchSeq sectPrRegex s = Some (b, m, r)"
  shows "\<exists>attrs inner. m = ''<w:sectPr'' @ attrs @ ''>'' @ inner @ ''</w:sectPr>''
           \<and> CHR ''>'' \<notin> set attrs"
proof -
  from assms obtain a1 attrs a2 inner where
    "firstOccurrence ''<w:sectPr'' s = Some (b, a1)"
    and g: "firstOccurrence ''>'' a1 = Some (attrs, a2)"
    and "firstOccurrence ''</w:sectPr>'' a2 = Some (inner, r)"
    and m: "m = ''<w:sectPr'' @ attrs @ ''>'' @ inner @ ''</w:sectPr>''"
    unfolding sectPrRegex_def by (auto split: option.splits)
  from firstOccurrence_char_gap [OF g] m show ?thesis by blast
qed

text \<open>Without the last literal of an expression in the text there is no match.\<close>

lemma firstOccurrence_None_suffix:
  "firstOccurrence p (x @ y) = None \<Longrightarrow> firstOccurrence p y = None"
proof (induction x)
  case Nil
  then show ?case by simp
next
  case (Cons c x)
  then show ?case by (simp split: if_splits)
qed

lemma matchSeq_no_close:
  assumes "firstOccurrence cls s = None"
  shows "matchSeq [opn, gt, cls] s = None"
proof (cases "firstOccurrence opn s")
  case None
  then show ?thesis by simp
next
  case (Some ba)
  obtain b a where ba: "ba = (b, a)" by (cases ba)
  with Some have f1: "firstOccurrence opn s = Some (b, a)" by simp
  from firstOccurrence_decomp [OF f1] assms
  have "firstOccurrence cls ((b @ opn) @ a) = None" by simp
  then have na: "firstOccurrence cls a = None" by (rule firstOccurrence_None_suffix)
  show ?thesis
  proof (cases "firstOccurrence gt a")
    case None
    with f1 show ?thesis by simp
  next
    case (Some ga)
    obtain g a2 where ga: "ga = (g, a2)" by (cases ga)
    with Some have f2: "firstOccurrence gt a = Some (g, a2)" by simp
    from firstOccurrence_decomp [OF f2] na
    have "firstOccurrence cls ((g @ gt) @ a2) = None" by simp
    then have "firstOccurrence cls a2 = None" by (rule firstOccurrence_None_suffix)
    with f1 f2 show ?thesis by simp
  qed
qed

lemma getZipEntryText_zipPut:
  "getZipEntryText (zipPut z p c) q = (if q = p then Some c else getZipEntryText z q)"
  by (simp add: getZipEntryText_def zipPut_def update_conv')


section \<open>Properties of the table numberer\<close>

subsection \<open>Which rows are numbered\<close>










subsection \<open>The sequence across tables\<close>

text \<open>
  The example of the specification: two tables of five rows, rows 1 and 5 being headers.
  The data rows of the first table receive 1, 2, 3 and those of the second 4, 5, 6.
\<close>

lemma numbering_example:
  "processTableReferences
     (''<w:tbl>''
      @ ''<w:tr><w:tc><w:p><w:r><w:t>REF</w:t></w:r></w:p></w:tc></w:tr>''
      @ ''<w:tr><w:tc><w:p><w:r><w:t>a</w:t></w:r></w:p></w:tc></w:tr>''
      @ ''<w:tr><w:tc><w:p><w:r><w:t>b</w:t></w:r></w:p></w:tc></w:tr>''
      @ ''<w:tr><w:tc><w:p><w:r><w:t>c</w:t></w:r></w:p></w:tc></w:tr>''
      @ ''<w:tr><w:tc><w:p><w:r><w:t>Area</w:t></w:r></w:p></w:tc></w:tr>''
      @ ''</w:tbl>''
      @ ''<w:tbl>''
      @ ''<w:tr><w:tc><w:p><w:r><w:t>REF</w:t></w:r></w:p></w:tc></w:tr>''
      @ ''<w:tr><w:tc><w:p><w:r><w:t>d</w:t></w:r></w:p></w:tc></w:tr>''
      @ ''<w:tr><w:tc><w:p><w:r><w:t>e</w:t></w:r></w:p></w:tc></w:tr>''
      @ ''<w:tr><w:tc><w:p><w:r><w:t>f</w:t></w:r></w:p></w:tc></w:tr>''
      @ ''<w:tr><w:tc><w:p><w:r><w:t>Area</w:t></w:r></w:p></w:tc></w:tr>''
      @ ''</w:tbl>'') 1
   = ''<w:tbl>''
      @ ''<w:tr><w:tc><w:p><w:r><w:t>REF</w:t></w:r></w:p></w:tc></w:tr>''
      @ ''<w:tr><w:tc><w:p><w:r><w:t>1</w:t></w:r></w:p></w:tc></w:tr>''
      @ ''<w:tr><w:tc><w:p><w:r><w:t>2</w:t></w:r></w:p></w:tc></w:tr>''
      @ ''<w:tr><w:tc><w:p><w:r><w:t>3</w:t></w:r></w:p></w:tc></w:tr>''
      @ ''<w:tr><w:tc><w:p><w:r><w:t>Area</w:t></w:r></w:p></w:tc></w:tr>''
      @ ''</w:tbl>''
      @ ''<w:tbl>''
      @ ''<w:tr><w:tc><w:p><w:r><w:t>REF</w:t></w:r></w:p></w:tc></w:tr>''
      @ ''<w:tr><w:tc><w:p><w:r><w:t>4</w:t></w:r></w:p></w:tc></w:tr>''
      @ ''<w:tr><w:tc><w:p><w:r><w:t>5</w:t></w:r></w:p></w:tc></w:tr>''
      @ ''<w:tr><w:tc><w:p><w:r><w:t>6</w:t></w:r></w:p></w:tc></w:tr>''
      @ ''<w:tr><w:tc><w:p><w:r><w:t>Area</w:t></w:r></w:p></w:tc></w:tr>''
      @ ''</w:tbl>''"
  by code_simp

text \<open>The table index of \<open>processTable\<close> is used for the log only.\<close>

lemma processTable_index:
  "processTable tableXml i start = processTable tableXml 0 start"
  by (simp add: processTable_def)

text \<open>
  C2 (global counter monotonicity). The claim: the last number of a table is smaller than
  the first number of the next table. The counter itself is never reset, but the processed
  table is put back with \<^verbatim>\<open>processedXml.replace(originalTable, ...)\<close>, which replaces the
  first place where the text of the original table occurs. Take a document of two tables
  with the same text \<open>T\<close>, which already holds the numbers that the first table receives
  (numbering it from \<open>n\<close> gives \<open>T\<close> again). The first table is rewritten to its own text;
  the second is numbered from the value the counter has reached, and its text is put in
  the place of the first table, while the second table stays as it was: in the result
  the first table holds the later numbers and the second the earlier ones.
\<close>

theorem duplicate_table_overwrites_first:
  assumes tables: "matchAllSeq [''<w:tbl>'', ''</w:tbl>''] (T @ T) = [T, T]"
      and plain: "CHR ''$'' \<notin> set T"
      and same: "removeAll_str ''<REF_NUMBER_ADDED>'' (processTable T 1 n) = T"
      and plain2: "CHR ''$'' \<notin> set (removeAll_str ''<REF_NUMBER_ADDED>''
                      (processTable T 2
                         (n + countOccurrences ''<REF_NUMBER_ADDED>'' (processTable T 1 n))))"
  shows "processTableReferences (T @ T) n
         = removeAll_str ''<REF_NUMBER_ADDED>''
             (processTable T 2 (n + countOccurrences ''<REF_NUMBER_ADDED>'' (processTable T 1 n)))
           @ T"
proof -
  let ?k = "countOccurrences ''<REF_NUMBER_ADDED>'' (processTable T 1 n)"
  let ?second = "removeAll_str ''<REF_NUMBER_ADDED>'' (processTable T 2 (n + ?k))"
  have one: "replaceStr (T @ T) T T = T @ T"
    using replaceStr_self [OF plain, of "T @ T" "[]" T] by simp
  have two: "replaceStr (T @ T) T ?second = ?second @ T"
    using replaceStr_plain [OF firstOccurrence_at_start plain2] by simp
  have "processTables [T, T] 0 n (T @ T) = (?second @ T, n + ?k
            + countOccurrences ''<REF_NUMBER_ADDED>'' (processTable T 2 (n + ?k)))"
    using same one two
    by (simp add: Let_def processTable_index [of T "Suc 0"] processTable_index [of T "Suc (Suc 0)"]
          processTable_index [of T 2])
  with tables show ?thesis by (simp add: processTableReferences_def)
qed

text \<open>
  The two tables below have a header row and a data row that holds \<open>1\<close>. In the result
  table 1 holds 2 and table 2 holds 1.
\<close>

theorem duplicate_table_overwrites_first_witness:
  "processTableReferences
     (''<w:tbl><w:tr><w:tc><w:p><w:r><w:t>REF</w:t></w:r></w:p></w:tc></w:tr><w:tr><w:tc><w:p><w:r><w:t>1</w:t></w:r></w:p></w:tc></w:tr></w:tbl>''
      @ ''<w:tbl><w:tr><w:tc><w:p><w:r><w:t>REF</w:t></w:r></w:p></w:tc></w:tr><w:tr><w:tc><w:p><w:r><w:t>1</w:t></w:r></w:p></w:tc></w:tr></w:tbl>'') 1
   = ''<w:tbl><w:tr><w:tc><w:p><w:r><w:t>REF</w:t></w:r></w:p></w:tc></w:tr><w:tr><w:tc><w:p><w:r><w:t>2</w:t></w:r></w:p></w:tc></w:tr></w:tbl>''
      @ ''<w:tbl><w:tr><w:tc><w:p><w:r><w:t>REF</w:t></w:r></w:p></w:tc></w:tr><w:tr><w:tc><w:p><w:r><w:t>1</w:t></w:r></w:p></w:tc></w:tr></w:tbl>''"
proof -
  let ?T = "''<w:tbl><w:tr><w:tc><w:p><w:r><w:t>REF</w:t></w:r></w:p></w:tc></w:tr><w:tr><w:tc><w:p><w:r><w:t>1</w:t></w:r></w:p></w:tc></w:tr></w:tbl>''"
  have tables: "matchAllSeq [''<w:tbl>'', ''</w:tbl>''] (?T @ ?T) = [?T, ?T]" by code_simp
  have plain: "CHR ''$'' \<notin> set ?T" by code_simp
  have same: "removeAll_str ''<REF_NUMBER_ADDED>'' (processTable ?T 1 1) = ?T" by code_simp
  have second: "removeAll_str ''<REF_NUMBER_ADDED>''
      (processTable ?T 2 (1 + countOccurrences ''<REF_NUMBER_ADDED>'' (processTable ?T 1 1)))
    = ''<w:tbl><w:tr><w:tc><w:p><w:r><w:t>REF</w:t></w:r></w:p></w:tc></w:tr><w:tr><w:tc><w:p><w:r><w:t>2</w:t></w:r></w:p></w:tc></w:tr></w:tbl>''"
    by code_simp
  have plain2: "CHR ''$'' \<notin> set (removeAll_str ''<REF_NUMBER_ADDED>''
      (processTable ?T 2 (1 + countOccurrences ''<REF_NUMBER_ADDED>'' (processTable ?T 1 1))))"
    unfolding second by code_simp
  from duplicate_table_overwrites_first [OF tables plain same plain2]
  show ?thesis unfolding second by simp
qed

text \<open>
  C10 (contiguity of the written numbers). The claim: the numbers written into a document
  are \<open>1..K\<close>, without gaps or duplicates. Inside a table the serial number advances for
  every row whose text changed; across tables it advances by the number of
  \<^verbatim>\<open><REF_NUMBER_ADDED>\<close> markers. A row can change without a marker: when its first paragraph
  has a \<^verbatim>\<open><w:pPr>\<close> block the paragraph is put back unchanged, but as a replacement string,
  in which \<^verbatim>\<open>$$\<close> stands for one dollar sign. In the document below row 2 of table 1 holds
  the text \<^verbatim>\<open>$$\<close>: it loses one dollar sign and takes number 1 without showing it, row 3
  receives 2, and table 2 starts again at 2. The numbers written are 2 and 2.
\<close>

theorem dollar_row_breaks_contiguity:
  "processTableReferences
     (''<w:tbl><w:tr><w:tc><w:p><w:r><w:t>REF</w:t></w:r></w:p></w:tc></w:tr>''
      @ ''<w:tr><w:tc><w:p><w:pPr><w:jc w:val=\"right\"/></w:pPr><w:r><w:t>$$</w:t></w:r></w:p></w:tc></w:tr>''
      @ ''<w:tr><w:tc><w:p><w:r><w:t>a</w:t></w:r></w:p></w:tc></w:tr></w:tbl>''
      @ ''<w:tbl><w:tr><w:tc><w:p><w:r><w:t>REF</w:t></w:r></w:p></w:tc></w:tr>''
      @ ''<w:tr><w:tc><w:p><w:r><w:t>b</w:t></w:r></w:p></w:tc></w:tr></w:tbl>'') 1
   = ''<w:tbl><w:tr><w:tc><w:p><w:r><w:t>REF</w:t></w:r></w:p></w:tc></w:tr>''
      @ ''<w:tr><w:tc><w:p><w:pPr><w:jc w:val=\"right\"/></w:pPr><w:r><w:t>$</w:t></w:r></w:p></w:tc></w:tr>''
      @ ''<w:tr><w:tc><w:p><w:r><w:t>2</w:t></w:r></w:p></w:tc></w:tr></w:tbl>''
      @ ''<w:tbl><w:tr><w:tc><w:p><w:r><w:t>REF</w:t></w:r></w:p></w:tc></w:tr>''
      @ ''<w:tr><w:tc><w:p><w:r><w:t>2</w:t></w:r></w:p></w:tc></w:tr></w:tbl>''"
  by code_simp

text \<open>
  C6 (idempotence of numbering). The claim: numbering the output of the numberer again
  changes nothing. A rewritten row is put back with
  \<^verbatim>\<open>processedTableXml.replace(row, processedRow)\<close>, which replaces the first place where the
  text of the row occurs. In a table whose four rows have the same text (an empty grid)
  the first pass writes 1, 2, 3 into rows 1, 2, 3, the header row included, and leaves
  row 4. On that output the second pass skips row 1 and writes 1, 2, 3 into rows 2, 3, 4.
\<close>

theorem numbering_twice_differs:
  "processTableReferences
     ''<w:tbl><w:tr><w:tc><w:p/></w:tc></w:tr><w:tr><w:tc><w:p/></w:tc></w:tr><w:tr><w:tc><w:p/></w:tc></w:tr><w:tr><w:tc><w:p/></w:tc></w:tr></w:tbl>'' 1
   = ''<w:tbl><w:tr><w:tc><w:p><w:r><w:t>1</w:t></w:r></w:p><w:p/></w:tc></w:tr>''
      @ ''<w:tr><w:tc><w:p><w:r><w:t>2</w:t></w:r></w:p><w:p/></w:tc></w:tr>''
      @ ''<w:tr><w:tc><w:p><w:r><w:t>3</w:t></w:r></w:p><w:p/></w:tc></w:tr>''
      @ ''<w:tr><w:tc><w:p/></w:tc></w:tr></w:tbl>''
   \<and> processTableReferences
     (''<w:tbl><w:tr><w:tc><w:p><w:r><w:t>1</w:t></w:r></w:p><w:p/></w:tc></w:tr>''
      @ ''<w:tr><w:tc><w:p><w:r><w:t>2</w:t></w:r></w:p><w:p/></w:tc></w:tr>''
      @ ''<w:tr><w:tc><w:p><w:r><w:t>3</w:t></w:r></w:p><w:p/></w:tc></w:tr>''
      @ ''<w:tr><w:tc><w:p/></w:tc></w:tr></w:tbl>'') 1
   = ''<w:tbl><w:tr><w:tc><w:p><w:r><w:t>1</w:t></w:r></w:p><w:p/></w:tc></w:tr>''
      @ ''<w:tr><w:tc><w:p><w:r><w:t>1</w:t></w:r></w:p><w:p/></w:tc></w:tr>''
      @ ''<w:tr><w:tc><w:p><w:r><w:t>2</w:t></w:r></w:p><w:p/></w:tc></w:tr>''
      @ ''<w:tr><w:tc><w:p><w:r><w:t>3</w:t></w:r></w:p><w:p/></w:tc></w:tr></w:tbl>''
   \<and> processTableReferences
       (processTableReferences
          ''<w:tbl><w:tr><w:tc><w:p/></w:tc></w:tr><w:tr><w:tc><w:p/></w:tc></w:tr><w:tr><w:tc><w:p/></w:tc></w:tr><w:tr><w:tc><w:p/></w:tc></w:tr></w:tbl>'' 1) 1
     \<noteq> processTableReferences
         ''<w:tbl><w:tr><w:tc><w:p/></w:tc></w:tr><w:tr><w:tc><w:p/></w:tc></w:tr><w:tr><w:tc><w:p/></w:tc></w:tr><w:tr><w:tc><w:p/></w:tc></w:tr></w:tbl>'' 1"
  by code_simp

subsection \<open>Writing the number into the first cell\<close>


text \<open>
  C3 (cell-write rule). The claim: in a non-header row whose first cell has a paragraph, the
  runs of the paragraph are replaced by the serial number, and a \<^verbatim>\<open><w:pPr>\<close> block of the
  paragraph is kept in the rewritten paragraph; a first cell with no paragraph gets a new
  paragraph with one run. The code does the first for a paragraph without \<^verbatim>\<open><w:pPr>\<close>, and
  the last. For a paragraph with a \<^verbatim>\<open><w:pPr>\<close> block it searches the paragraph for the
  literal text \<^verbatim>\<open><w:pPr>...</w:pPr>[sS]*?</w:p>\<close>, which a document does not contain, and puts
  the paragraph back as it was: whatever the serial number, the row is returned unchanged
  and no number is written (for a row without a dollar sign, which \<^verbatim>\<open>replace\<close> would
  expand). The evaluation that follows the theorem shows the three cases at serial
  number 7.
\<close>

theorem pPr_row_never_numbered:
  assumes cell: "matchSeq [''<w:tc>'', ''</w:tc>''] row = Some (b, cell, a)"
      and par: "matchSeq [''<w:p'', ''</w:p>''] cell = Some (b', paragraph, a')"
      and ppr: "matchSeq [''<w:pPr>'', ''</w:pPr>''] paragraph = Some (b'', pPr, a'')"
      and lit: "firstOccurrence (pPr @ ''[sS]*?</w:p>'') paragraph = None"
      and plain: "CHR ''$'' \<notin> set row"
  shows "processRowFirstCell row serialNumber = row"
proof -
  from matchSeq_decomp [OF cell] have row: "row = b @ cell @ a" .
  from matchSeq_decomp [OF par] have c: "cell = b' @ paragraph @ a'" .
  from plain row have pc: "CHR ''$'' \<notin> set cell" by simp
  with c have pp: "CHR ''$'' \<notin> set paragraph" by simp
  have np: "replaceStr paragraph (pPr @ ''[sS]*?</w:p>'') (pPr @ numberedRun serialNumber) = paragraph"
    using lit by (simp add: replaceStr_def)
  have nc: "replaceStr cell paragraph paragraph = cell"
    by (rule replaceStr_self [OF pp c])
  have nr: "replaceStr row cell cell = row"
    by (rule replaceStr_self [OF pc row])
  show ?thesis
    using cell par ppr np nc nr by (simp add: processRowFirstCell_def Let_def)
qed

theorem pPr_row_never_numbered_witness:
  "processRowFirstCell
     ''<w:tr><w:tc><w:p><w:pPr><w:jc w:val=\"center\"/></w:pPr><w:r><w:t>old</w:t></w:r></w:p></w:tc></w:tr>'' 7
   = ''<w:tr><w:tc><w:p><w:pPr><w:jc w:val=\"center\"/></w:pPr><w:r><w:t>old</w:t></w:r></w:p></w:tc></w:tr>''
   \<and> processRowFirstCell
     ''<w:tr><w:tc><w:p><w:r><w:t>old</w:t></w:r></w:p></w:tc></w:tr>'' 7
   = ''<w:tr><w:tc><w:p><w:r><w:t>7</w:t></w:r></w:p><REF_NUMBER_ADDED></w:tc></w:tr>''
   \<and> processRowFirstCell ''<w:tr><w:tc><w:tcPr/></w:tc></w:tr>'' 7
   = ''<w:tr><w:tc><w:p><w:r><w:t>7</w:t></w:r></w:p><REF_NUMBER_ADDED><w:tcPr/></w:tc></w:tr>''"
proof -
  let ?par = "''<w:p><w:pPr><w:jc w:val=\"center\"/></w:pPr><w:r><w:t>old</w:t></w:r></w:p>''"
  let ?cell = "''<w:tc>'' @ ?par @ ''</w:tc>''"
  let ?row = "''<w:tr>'' @ ?cell @ ''</w:tr>''"
  have cell: "matchSeq [''<w:tc>'', ''</w:tc>''] ?row = Some (''<w:tr>'', ?cell, ''</w:tr>'')"
    by code_simp
  have par: "matchSeq [''<w:p'', ''</w:p>''] ?cell = Some (''<w:tc>'', ?par, ''</w:tc>'')"
    by code_simp
  have ppr: "matchSeq [''<w:pPr>'', ''</w:pPr>''] ?par
      = Some (''<w:p>'', ''<w:pPr><w:jc w:val=\"center\"/></w:pPr>'', ''<w:r><w:t>old</w:t></w:r></w:p>'')"
    by code_simp
  have lit: "firstOccurrence (''<w:pPr><w:jc w:val=\"center\"/></w:pPr>'' @ ''[sS]*?</w:p>'') ?par = None"
    by code_simp
  have plain: "CHR ''$'' \<notin> set ?row" by code_simp
  from pPr_row_never_numbered [OF cell par ppr lit plain, of 7]
  have one: "processRowFirstCell
     ''<w:tr><w:tc><w:p><w:pPr><w:jc w:val=\"center\"/></w:pPr><w:r><w:t>old</w:t></w:r></w:p></w:tc></w:tr>'' 7
   = ''<w:tr><w:tc><w:p><w:pPr><w:jc w:val=\"center\"/></w:pPr><w:r><w:t>old</w:t></w:r></w:p></w:tc></w:tr>''"
    by simp
  have two: "processRowFirstCell
     ''<w:tr><w:tc><w:p><w:r><w:t>old</w:t></w:r></w:p></w:tc></w:tr>'' 7
   = ''<w:tr><w:tc><w:p><w:r><w:t>7</w:t></w:r></w:p><REF_NUMBER_ADDED></w:tc></w:tr>''"
    by code_simp
  have three: "processRowFirstCell ''<w:tr><w:tc><w:tcPr/></w:tc></w:tr>'' 7
   = ''<w:tr><w:tc><w:p><w:r><w:t>7</w:t></w:r></w:p><REF_NUMBER_ADDED><w:tcPr/></w:tc></w:tr>''"
    by code_simp
  from one two three show ?thesis by blast
qed

section \<open>Properties of the template applier\<close>

subsection \<open>Removal of a leading blank page\<close>

text \<open>
  C4 (leading-blank-page removal). The claim: only a page break that is the very first
  content of the body is deleted, never a later one, and only the break is deleted. The
  expression of \<open>removeBlankFirstPage\<close> is not anchored: after \<^verbatim>\<open><w:body>\<close> it accepts any
  text before \<^verbatim>\<open><w:p>\<close>, before \<^verbatim>\<open><w:r>\<close> and before the break. Whenever it matches, the
  document has the shape below, with any texts \<open>g1\<close> to \<open>g5\<close> between the literals, and
  everything from \<^verbatim>\<open><w:body>\<close> to the end of the paragraph that holds the first page break
  of the document is replaced by \<^verbatim>\<open><w:body>\<close>: what stands before the break (\<open>g1\<close>,
  \<open>g2\<close>, \<open>g3\<close>, whole paragraphs when the break is not at the start) and what follows it
  in its paragraph (\<open>g4\<close>, \<open>g5\<close>) is deleted with it.
\<close>

theorem blank_page_match_removed:
  assumes "matchSeq blankFirstPageRegex docXml = Some (b, m, r)"
  shows "(\<exists>g1 g2 g3 g4 g5.
            docXml = b @ ''<w:body>'' @ g1 @ ''<w:p>'' @ g2 @ ''<w:r>'' @ g3
                       @ ''<w:br w:type=\"page\"/>'' @ g4 @ ''</w:r>'' @ g5 @ ''</w:p>'' @ r)
       \<and> removeBlankFirstPage [(''word/document.xml'', docXml)]
           = [(''word/document.xml'', b @ ''<w:body>'' @ r)]"
proof -
  from assms obtain a1 g1 a2 g2 a3 g3 a4 g4 a5 g5 where
    f1: "firstOccurrence ''<w:body>'' docXml = Some (b, a1)" and
    f2: "firstOccurrence ''<w:p>'' a1 = Some (g1, a2)" and
    f3: "firstOccurrence ''<w:r>'' a2 = Some (g2, a3)" and
    f4: "firstOccurrence ''<w:br w:type=\"page\"/>'' a3 = Some (g3, a4)" and
    f5: "firstOccurrence ''</w:r>'' a4 = Some (g4, a5)" and
    f6: "firstOccurrence ''</w:p>'' a5 = Some (g5, r)"
    unfolding blankFirstPageRegex_def
    by (auto split: option.splits)
  from firstOccurrence_decomp [OF f1] firstOccurrence_decomp [OF f2]
    firstOccurrence_decomp [OF f3] firstOccurrence_decomp [OF f4]
    firstOccurrence_decomp [OF f5] firstOccurrence_decomp [OF f6]
  have shape: "docXml = b @ ''<w:body>'' @ g1 @ ''<w:p>'' @ g2 @ ''<w:r>'' @ g3
                       @ ''<w:br w:type=\"page\"/>'' @ g4 @ ''</w:r>'' @ g5 @ ''</w:p>'' @ r"
    by simp
  then have ne: "docXml \<noteq> []" by simp
  have fm: "firstOccurrence m docXml = Some (b, r)"
    using assms unfolding blankFirstPageRegex_def by (rule matchSeq_first)
  have rep: "replaceStr docXml m ''<w:body>'' = b @ ''<w:body>'' @ r"
    by (rule replaceStr_plain [OF fm]) simp
  have "removeBlankFirstPage [(''word/document.xml'', docXml)]
           = [(''word/document.xml'', b @ ''<w:body>'' @ r)]"
    using assms ne rep
    by (simp add: removeBlankFirstPage_def getZipEntryText_def falsy_def zipPut_def)
  with shape show ?thesis by blast
qed



text \<open>
  In the first document the break is in the second paragraph (the break that the merge
  puts between two inputs): the paragraph \<open>Hello\<close> before it is deleted with it. In the
  second document the break does start the body: the whole first paragraph goes, with the
  text \<open>Hello\<close> that follows the break in it.
\<close>

theorem blank_page_match_removed_witness:
  "removeBlankFirstPage
     [(''word/document.xml'',
       ''<w:document><w:body><w:p><w:r><w:t>Hello</w:t></w:r></w:p><w:p><w:r><w:br w:type=\"page\"/></w:r></w:p><w:p><w:r><w:t>World</w:t></w:r></w:p></w:body></w:document>'')]
   = [(''word/document.xml'',
       ''<w:document><w:body><w:p><w:r><w:t>World</w:t></w:r></w:p></w:body></w:document>'')]
   \<and> removeBlankFirstPage
     [(''word/document.xml'',
       ''<w:document><w:body><w:p><w:r><w:br w:type=\"page\"/></w:r><w:r><w:t>Hello</w:t></w:r></w:p><w:p><w:r><w:t>World</w:t></w:r></w:p></w:body></w:document>'')]
   = [(''word/document.xml'',
       ''<w:document><w:body><w:p><w:r><w:t>World</w:t></w:r></w:p></w:body></w:document>'')]"
proof -
  have m: "matchSeq blankFirstPageRegex
      ''<w:document><w:body><w:p><w:r><w:t>Hello</w:t></w:r></w:p><w:p><w:r><w:br w:type=\"page\"/></w:r></w:p><w:p><w:r><w:t>World</w:t></w:r></w:p></w:body></w:document>''
    = Some (''<w:document>'',
        ''<w:body><w:p><w:r><w:t>Hello</w:t></w:r></w:p><w:p><w:r><w:br w:type=\"page\"/></w:r></w:p>'',
        ''<w:p><w:r><w:t>World</w:t></w:r></w:p></w:body></w:document>'')"
    by code_simp
  from blank_page_match_removed [OF m]
  have one: "removeBlankFirstPage
     [(''word/document.xml'',
       ''<w:document><w:body><w:p><w:r><w:t>Hello</w:t></w:r></w:p><w:p><w:r><w:br w:type=\"page\"/></w:r></w:p><w:p><w:r><w:t>World</w:t></w:r></w:p></w:body></w:document>'')]
   = [(''word/document.xml'',
       ''<w:document><w:body><w:p><w:r><w:t>World</w:t></w:r></w:p></w:body></w:document>'')]"
    by simp
  have two: "removeBlankFirstPage
     [(''word/document.xml'',
       ''<w:document><w:body><w:p><w:r><w:br w:type=\"page\"/></w:r><w:r><w:t>Hello</w:t></w:r></w:p><w:p><w:r><w:t>World</w:t></w:r></w:p></w:body></w:document>'')]
   = [(''word/document.xml'',
       ''<w:document><w:body><w:p><w:r><w:t>World</w:t></w:r></w:p></w:body></w:document>'')]"
    by code_simp
  from one two show ?thesis by blast
qed

subsection \<open>Section properties\<close>

text \<open>
  C8 (section-properties normalization). The claim: every section-properties block of the
  combined body is replaced by the last block of the template, or that block is appended
  when the body has none, so that afterwards every section description of the body is the
  template's. The expression of \<open>updateDocumentReferences\<close> needs a closing
  \<^verbatim>\<open></w:sectPr>\<close> tag. In a combined document without that tag, such as a body whose
  section properties are the empty element \<^verbatim>\<open><w:sectPr/>\<close>, nothing is found: the code
  takes the body to have no section properties and puts the template block in front of
  \<^verbatim>\<open></w:body>\<close>, and all the text \<open>b\<close> before it, section properties included, stays as it
  is.
\<close>

theorem sectPr_without_closing_tag_kept:
  assumes t: "matchAllSeq sectPrRegex templateDoc \<noteq> []"
      and plain: "CHR ''$'' \<notin> set (last (matchAllSeq sectPrRegex templateDoc))"
      and nocl: "firstOccurrence ''</w:sectPr>'' mergedDoc = None"
      and body: "firstOccurrence ''</w:body>'' mergedDoc = Some (b, a)"
  shows "updateDocumentReferences [(''word/document.xml'', templateDoc)]
           [(''word/document.xml'', mergedDoc)]
         = [(''word/document.xml'',
             b @ last (matchAllSeq sectPrRegex templateDoc) @ ''</w:body>'' @ a)]"
proof -
  let ?main = "last (matchAllSeq sectPrRegex templateDoc)"
  have tne: "templateDoc \<noteq> []"
  proof
    assume "templateDoc = []"
    then have "matchAllSeq sectPrRegex templateDoc = []" by (simp add: sectPrRegex_def)
    with t show False by simp
  qed
  from body have mne: "mergedDoc \<noteq> []" by (cases mergedDoc) simp_all
  have none: "matchAllSeq sectPrRegex mergedDoc = []"
    using matchSeq_no_close [OF nocl, of "''<w:sectPr''" "''>''"] by (simp add: sectPrRegex_def)
  have "CHR ''$'' \<notin> set (?main @ ''</w:body>'')" using plain by simp
  from replaceStr_plain [OF body this]
  have rep: "replaceStr mergedDoc ''</w:body>'' (?main @ ''</w:body>'') = b @ ?main @ ''</w:body>'' @ a"
    by simp
  show ?thesis
    using t tne mne none rep
    by (simp add: updateDocumentReferences_def getZipEntryText_def falsy_def zipPut_def Let_def)
qed

text \<open>
  The body below has the section properties \<^verbatim>\<open><w:sectPr/>\<close> and afterwards two section
  descriptions, its own and the template's. The second equation is a body whose section
  properties have a closing tag, which is normalized as claimed.
\<close>

theorem sectPr_without_closing_tag_kept_witness:
  "updateDocumentReferences
     [(''word/document.xml'',
       ''<w:body><w:p/><w:sectPr><w:pgSz w:w=\"11906\"/></w:sectPr></w:body>'')]
     [(''word/document.xml'', ''<w:body><w:p/><w:sectPr/></w:body>'')]
   = [(''word/document.xml'',
       ''<w:body><w:p/><w:sectPr/><w:sectPr><w:pgSz w:w=\"11906\"/></w:sectPr></w:body>'')]
   \<and> updateDocumentReferences
     [(''word/document.xml'',
       ''<w:body><w:p/><w:sectPr><w:pgSz w:w=\"11906\"/></w:sectPr></w:body>'')]
     [(''word/document.xml'',
       ''<w:body><w:p/><w:sectPr w:rsidR=\"1\"><w:pgSz w:w=\"12240\"/></w:sectPr></w:body>'')]
   = [(''word/document.xml'',
       ''<w:body><w:p/><w:sectPr><w:pgSz w:w=\"11906\"/></w:sectPr></w:body>'')]"
proof -
  let ?t = "''<w:body><w:p/><w:sectPr><w:pgSz w:w=\"11906\"/></w:sectPr></w:body>''"
  have all: "matchAllSeq sectPrRegex ?t = [''<w:sectPr><w:pgSz w:w=\"11906\"/></w:sectPr>'']"
    by code_simp
  then have t: "matchAllSeq sectPrRegex ?t \<noteq> []" by simp
  have plain: "CHR ''$'' \<notin> set (last (matchAllSeq sectPrRegex ?t))"
    unfolding all by code_simp
  have nocl: "firstOccurrence ''</w:sectPr>'' ''<w:body><w:p/><w:sectPr/></w:body>'' = None"
    by code_simp
  have body: "firstOccurrence ''</w:body>'' ''<w:body><w:p/><w:sectPr/></w:body>''
      = Some (''<w:body><w:p/><w:sectPr/>'', [])"
    by code_simp
  from sectPr_without_closing_tag_kept [OF t plain nocl body]
  have one: "updateDocumentReferences
     [(''word/document.xml'', ?t)]
     [(''word/document.xml'', ''<w:body><w:p/><w:sectPr/></w:body>'')]
   = [(''word/document.xml'',
       ''<w:body><w:p/><w:sectPr/><w:sectPr><w:pgSz w:w=\"11906\"/></w:sectPr></w:body>'')]"
    unfolding all by simp
  have two: "updateDocumentReferences
     [(''word/document.xml'', ?t)]
     [(''word/document.xml'',
       ''<w:body><w:p/><w:sectPr w:rsidR=\"1\"><w:pgSz w:w=\"12240\"/></w:sectPr></w:body>'')]
   = [(''word/document.xml'',
       ''<w:body><w:p/><w:sectPr><w:pgSz w:w=\"11906\"/></w:sectPr></w:body>'')]"
    by code_simp
  from one two show ?thesis by blast
qed

subsection \<open>Relationship repair\<close>

text \<open>
  C5 (relationship repair), as the claim states it: the header and footer entries of the
  template are appended, an entry whose id is already present is skipped, and so the
  result never has two entries with the same id. The code has no such test: it appends
  every header or footer entry. Below the template has the header entry \<open>rId1\<close> and the
  combined package already has an entry \<open>rId1\<close> for its styles; the result has both.
\<close>

theorem preserveRelationships_duplicate_id:
  "preserveRelationships
     [(''word/_rels/document.xml.rels'',
       ''<Relationships><Relationship Id=\"rId1\" Type=\"header\" Target=\"header1.xml\"/></Relationships>'')]
     [(''word/_rels/document.xml.rels'',
       ''<Relationships><Relationship Id=\"rId1\" Type=\"styles\" Target=\"styles.xml\"/></Relationships>'')]
   = [(''word/_rels/document.xml.rels'',
       ''<Relationships><Relationship Id=\"rId1\" Type=\"styles\" Target=\"styles.xml\"/><Relationship Id=\"rId1\" Type=\"header\" Target=\"header1.xml\"/></Relationships>'')]"
  by code_simp

text \<open>
  What the expression extracts from a relationship part that is a list of entries: the
  entries whose attribute text holds a header or footer target, in their order.
\<close>

lemma headerFooterRels_noprefix:
  assumes "\<not> prefix ''<Relationship '' (c # s)"
  shows "headerFooterRels (c # s) = headerFooterRels s"
  unfolding headerFooterRels.simps(2) [of c s] using assms by (simp only: if_False)

lemma headerFooterRels_match:
  assumes "CHR ''>'' \<notin> set b"
  shows "headerFooterRels (''<Relationship '' @ b @ CHR ''>'' # x)
         = (if hasTarget b then (''<Relationship '' @ b @ ''>'') # headerFooterRels x
            else headerFooterRels (''Relationship '' @ b @ CHR ''>'' # x))"
proof -
  from assms have nb: "\<forall>c \<in> set b. c \<noteq> CHR ''>''" by auto
  have tw: "takeWhile (\<lambda>c. c \<noteq> CHR ''>'') (b @ CHR ''>'' # x) = b"
    using nb by (simp add: takeWhile_tail)
  have dw: "dropWhile (\<lambda>c. c \<noteq> CHR ''>'') (b @ CHR ''>'' # x) = CHR ''>'' # x"
    using nb by (simp add: dropWhile_append3)
  show ?thesis by (simp add: tw dw Let_def)
qed

declare headerFooterRels.simps [simp del]

lemma headerFooterRels_skip:
  "CHR ''<'' \<notin> set u \<Longrightarrow> headerFooterRels (u @ x) = headerFooterRels x"
proof (induction u)
  case Nil
  then show ?case by simp
next
  case (Cons c u)
  then have "\<not> prefix ''<Relationship '' (c # (u @ x))" by auto
  from headerFooterRels_noprefix [OF this] Cons show ?case by simp
qed

lemma headerFooterRels_pre:
  assumes "pre = [] \<or> (last pre = CHR ''>'' \<and> firstOccurrence ''<Relationship '' pre = None)"
  shows "headerFooterRels (pre @ x) = headerFooterRels x"
  using assms
proof (induction pre)
  case Nil
  then show ?case by simp
next
  case (Cons c cs)
  then have l: "last (c # cs) = CHR ''>''" and f: "firstOccurrence ''<Relationship '' (c # cs) = None"
    by simp_all
  from f have np: "\<not> prefix ''<Relationship '' (c # cs)" and f': "firstOccurrence ''<Relationship '' cs = None"
    by (auto split: if_splits)
  have "\<not> prefix ''<Relationship '' ((c # cs) @ x)"
  proof
    assume "prefix ''<Relationship '' ((c # cs) @ x)"
    then consider "prefix ''<Relationship '' (c # cs)"
      | us where "''<Relationship '' = (c # cs) @ us"
      by (auto simp: prefix_append)
    then show False
    proof cases
      case 1
      with np show ?thesis by simp
    next
      case 2
      then have "set (c # cs) \<subseteq> set ''<Relationship ''"
        by (metis set_append Un_upper1)
      moreover from l have "CHR ''>'' \<in> set (c # cs)"
        by (metis last_in_set list.distinct(1))
      ultimately have "CHR ''>'' \<in> set ''<Relationship ''" by blast
      then show ?thesis by simp
    qed
  qed
  then have "\<not> prefix ''<Relationship '' (c # (cs @ x))" by simp
  from headerFooterRels_noprefix [OF this]
  have step: "headerFooterRels ((c # cs) @ x) = headerFooterRels (cs @ x)" by simp
  show ?case
  proof (cases "cs = []")
    case True
    with step show ?thesis by simp
  next
    case False
    with l have "last cs = CHR ''>''" by simp
    with f' Cons.IH step show ?thesis by simp
  qed
qed

lemma headerFooterRels_tag:
  assumes "CHR ''<'' \<notin> set b" "CHR ''>'' \<notin> set b"
  shows "headerFooterRels (relTag b @ x) = (if hasTarget b then [relTag b] else []) @ headerFooterRels x"
proof -
  have "CHR ''<'' \<notin> set (''Relationship '' @ b @ ''>'')" using assms(1) by simp
  from headerFooterRels_skip [OF this, of x]
  have sk: "headerFooterRels (''Relationship '' @ b @ CHR ''>'' # x) = headerFooterRels x" by simp
  from headerFooterRels_match [OF assms(2), of x] sk
  show ?thesis by (simp add: relTag_def)
qed

lemma headerFooterRels_entries:
  assumes "\<forall>b \<in> set bodies. CHR ''<'' \<notin> set b \<and> CHR ''>'' \<notin> set b"
  shows "headerFooterRels (concat (map relTag bodies) @ ''</Relationships>'')
         = map relTag (filter hasTarget bodies)"
  using assms
proof (induction bodies)
  case Nil
  show ?case by code_simp
next
  case (Cons b bodies)
  then show ?case by (simp add: headerFooterRels_tag)
qed


lemma relTag_plain:
  "\<forall>b \<in> set bs. CHR ''$'' \<notin> set b \<Longrightarrow> CHR ''$'' \<notin> set (concat (map relTag bs) @ ''</Relationships>'')"
  by (induction bs) (auto simp: relTag_def)

text \<open>
  C5 as amended: relationship repair puts, in front of the first \<^verbatim>\<open></Relationships>\<close> of
  the combined package's document relationships, every entry of the template's document
  relationships whose attribute text holds \<^verbatim>\<open>Target="header\<close> or \<^verbatim>\<open>Target="footer\<close>, digits
  and \<^verbatim>\<open>.xml"\<close>, in the order of the template and whether or not the id of the entry is
  already present in the combined package (for entries without a dollar sign). No other
  part of the package changes. When one of the two relationship parts is missing or
  empty the package is returned as it is, and the step never aborts.
\<close>

theorem relationship_repair:
  assumes t: "getZipEntryText templateZip ''word/_rels/document.xml.rels''
                = Some (pre @ concat (map relTag entries) @ ''</Relationships>'')"
      and pre: "pre = [] \<or> (last pre = CHR ''>'' \<and> firstOccurrence ''<Relationship '' pre = None)"
      and ent: "\<forall>b \<in> set entries. CHR ''<'' \<notin> set b \<and> CHR ''>'' \<notin> set b \<and> CHR ''$'' \<notin> set b"
      and m: "getZipEntryText mergedZip ''word/_rels/document.xml.rels'' = Some mergedRels"
      and close: "firstOccurrence ''</Relationships>'' mergedRels = Some (before, after)"
  shows "getZipEntryText (preserveRelationships templateZip mergedZip) ''word/_rels/document.xml.rels''
           = Some (before @ concat (map relTag (filter hasTarget entries)) @ ''</Relationships>'' @ after)
         \<and> (path \<noteq> ''word/_rels/document.xml.rels'' \<longrightarrow>
              getZipEntryText (preserveRelationships templateZip mergedZip) path
              = getZipEntryText mergedZip path)
         \<and> (falsy (getZipEntryText tz ''word/_rels/document.xml.rels'')
              \<or> falsy (getZipEntryText mz ''word/_rels/document.xml.rels'')
            \<longrightarrow> preserveRelationships tz mz = mz)"
proof -
  let ?hf = "map relTag (filter hasTarget entries)"
  have hf: "headerFooterRels (pre @ concat (map relTag entries) @ ''</Relationships>'') = ?hf"
    using headerFooterRels_pre [OF pre] headerFooterRels_entries [of entries] ent by simp
  from close have mne: "mergedRels \<noteq> []" by (cases mergedRels) simp_all
  from firstOccurrence_decomp [OF close]
  have mdec: "mergedRels = before @ ''</Relationships>'' @ after" .
  have nf: "\<not> falsy (getZipEntryText templateZip ''word/_rels/document.xml.rels'')"
           "\<not> falsy (getZipEntryText mergedZip ''word/_rels/document.xml.rels'')"
    using t m mne by (simp_all add: falsy_def)
  have plain: "CHR ''$'' \<notin> set (concat ?hf @ ''</Relationships>'')"
    using relTag_plain [of "filter hasTarget entries"] ent by simp
  have rep: "replaceStr mergedRels ''</Relationships>'' (concat ?hf @ ''</Relationships>'')
             = before @ (concat ?hf @ ''</Relationships>'') @ after"
    by (rule replaceStr_plain [OF close plain])
  have first: "getZipEntryText (preserveRelationships templateZip mergedZip) ''word/_rels/document.xml.rels''
           = Some (before @ concat ?hf @ ''</Relationships>'' @ after)"
  proof (cases "?hf = []")
    case True
    then have "preserveRelationships templateZip mergedZip = mergedZip"
      using nf t m hf by (simp add: preserveRelationships_def Let_def)
    with m mdec True show ?thesis by simp
  next
    case False
    then have "preserveRelationships templateZip mergedZip
        = zipPut mergedZip ''word/_rels/document.xml.rels''
            (replaceStr mergedRels ''</Relationships>'' (concat ?hf @ ''</Relationships>''))"
      using nf t m hf by (simp add: preserveRelationships_def Let_def)
    with rep show ?thesis by (simp add: getZipEntryText_zipPut)
  qed
  have frame: "path \<noteq> ''word/_rels/document.xml.rels'' \<longrightarrow>
              getZipEntryText (preserveRelationships templateZip mergedZip) path
              = getZipEntryText mergedZip path"
    by (simp add: preserveRelationships_def Let_def getZipEntryText_zipPut)
  have skip: "falsy (getZipEntryText tz ''word/_rels/document.xml.rels'')
              \<or> falsy (getZipEntryText mz ''word/_rels/document.xml.rels'')
            \<longrightarrow> preserveRelationships tz mz = mz"
    by (simp add: preserveRelationships_def Let_def)
  from first frame skip show ?thesis by blast
qed

theorem relationship_repair_witness:
  "getZipEntryText
     [(''word/_rels/document.xml.rels'',
       ''<?xml version=\"1.0\"?><Relationships xmlns=\"r\">''
       @ ''<Relationship Id=\"rId1\" Type=\"header\" Target=\"header1.xml\"/>''
       @ ''<Relationship Id=\"rId2\" Type=\"styles\" Target=\"styles.xml\"/>''
       @ ''<Relationship Id=\"rId3\" Type=\"footer\" Target=\"footer2.xml\"/>''
       @ ''</Relationships>'')]
     ''word/_rels/document.xml.rels''
   = Some (''<?xml version=\"1.0\"?><Relationships xmlns=\"r\">''
       @ concat (map relTag
           [''Id=\"rId1\" Type=\"header\" Target=\"header1.xml\"/'',
            ''Id=\"rId2\" Type=\"styles\" Target=\"styles.xml\"/'',
            ''Id=\"rId3\" Type=\"footer\" Target=\"footer2.xml\"/''])
       @ ''</Relationships>'')
   \<and> firstOccurrence ''</Relationships>''
        ''<Relationships><Relationship Id=\"rId1\" Type=\"styles\" Target=\"styles.xml\"/></Relationships>''
      = Some (''<Relationships><Relationship Id=\"rId1\" Type=\"styles\" Target=\"styles.xml\"/>'', [])
   \<and> getZipEntryText
       (preserveRelationships
          [(''word/_rels/document.xml.rels'',
            ''<?xml version=\"1.0\"?><Relationships xmlns=\"r\">''
            @ ''<Relationship Id=\"rId1\" Type=\"header\" Target=\"header1.xml\"/>''
            @ ''<Relationship Id=\"rId2\" Type=\"styles\" Target=\"styles.xml\"/>''
            @ ''<Relationship Id=\"rId3\" Type=\"footer\" Target=\"footer2.xml\"/>''
            @ ''</Relationships>'')]
          [(''word/_rels/document.xml.rels'',
            ''<Relationships><Relationship Id=\"rId1\" Type=\"styles\" Target=\"styles.xml\"/></Relationships>'')])
       ''word/_rels/document.xml.rels''
     = Some (''<Relationships><Relationship Id=\"rId1\" Type=\"styles\" Target=\"styles.xml\"/>''
         @ ''<Relationship Id=\"rId1\" Type=\"header\" Target=\"header1.xml\"/>''
         @ ''<Relationship Id=\"rId3\" Type=\"footer\" Target=\"footer2.xml\"/>''
         @ ''</Relationships>'')"
proof -
  let ?tz = "[(''word/_rels/document.xml.rels'',
       ''<?xml version=\"1.0\"?><Relationships xmlns=\"r\">''
       @ ''<Relationship Id=\"rId1\" Type=\"header\" Target=\"header1.xml\"/>''
       @ ''<Relationship Id=\"rId2\" Type=\"styles\" Target=\"styles.xml\"/>''
       @ ''<Relationship Id=\"rId3\" Type=\"footer\" Target=\"footer2.xml\"/>''
       @ ''</Relationships>'')]"
  let ?mz = "[(''word/_rels/document.xml.rels'',
       ''<Relationships><Relationship Id=\"rId1\" Type=\"styles\" Target=\"styles.xml\"/></Relationships>'')]"
  let ?pre = "''<?xml version=\"1.0\"?><Relationships xmlns=\"r\">''"
  let ?entries = "[''Id=\"rId1\" Type=\"header\" Target=\"header1.xml\"/'',
            ''Id=\"rId2\" Type=\"styles\" Target=\"styles.xml\"/'',
            ''Id=\"rId3\" Type=\"footer\" Target=\"footer2.xml\"/'']"
  let ?before = "''<Relationships><Relationship Id=\"rId1\" Type=\"styles\" Target=\"styles.xml\"/>''"
  have t: "getZipEntryText ?tz ''word/_rels/document.xml.rels''
             = Some (?pre @ concat (map relTag ?entries) @ ''</Relationships>'')"
    by code_simp
  have pre: "?pre = [] \<or> (last ?pre = CHR ''>'' \<and> firstOccurrence ''<Relationship '' ?pre = None)"
    by code_simp
  have ent: "\<forall>b \<in> set ?entries. CHR ''<'' \<notin> set b \<and> CHR ''>'' \<notin> set b \<and> CHR ''$'' \<notin> set b"
    by code_simp
  have m: "getZipEntryText ?mz ''word/_rels/document.xml.rels''
             = Some ''<Relationships><Relationship Id=\"rId1\" Type=\"styles\" Target=\"styles.xml\"/></Relationships>''"
    by code_simp
  have close: "firstOccurrence ''</Relationships>''
        ''<Relationships><Relationship Id=\"rId1\" Type=\"styles\" Target=\"styles.xml\"/></Relationships>''
      = Some (?before, [])"
    by code_simp
  have ev: "?before @ concat (map relTag (filter hasTarget ?entries)) @ ''</Relationships>'' @ []
      = ''<Relationships><Relationship Id=\"rId1\" Type=\"styles\" Target=\"styles.xml\"/>''
         @ ''<Relationship Id=\"rId1\" Type=\"header\" Target=\"header1.xml\"/>''
         @ ''<Relationship Id=\"rId3\" Type=\"footer\" Target=\"footer2.xml\"/>''
         @ ''</Relationships>''"
    by code_simp
  from relationship_repair [OF t pre ent m close] ev
  have "getZipEntryText (preserveRelationships ?tz ?mz) ''word/_rels/document.xml.rels''
     = Some (''<Relationships><Relationship Id=\"rId1\" Type=\"styles\" Target=\"styles.xml\"/>''
         @ ''<Relationship Id=\"rId1\" Type=\"header\" Target=\"header1.xml\"/>''
         @ ''<Relationship Id=\"rId3\" Type=\"footer\" Target=\"footer2.xml\"/>''
         @ ''</Relationships>'')"
    by metis
  with t close show ?thesis by blast
qed

section \<open>Properties of the pipeline\<close>










subsection \<open>What a failed request leaves at the output path\<close>





subsection \<open>Two requests of the service\<close>




end
